theory Spec2Isabelle
  imports Main "HOL-Library.Word"
begin

unbundle bit_operations_syntax

section \<open>The API client of state/api/apiclient.go\<close>

subsection \<open>Data\<close>

text \<open>
  A Go \<open>error\<close> value is its message. A call of the program either returns an error
  value (\<open>Failed\<close>) or faults with a run-time panic (\<open>Panic\<close>); the two are kept
  apart because the caller of \<open>Open\<close> can test the first and not the second.
\<close>

datatype err = Err string

datatype failure = Panic string | Failed err

text \<open>\<open>time.Duration\<close> counts nanoseconds.\<close>

definition Millisecond :: int where
  "Millisecond = 1000000"

definition Second :: int where
  "Second = 1000000000"

definition Minute :: int where
  "Minute = 60 * Second"

record Info =
  Addrs :: "string list"
  CACert :: "8 word list"
  Tag :: string
  Password :: string

record DialOpts =
  Timeout :: int
  RetryDelay :: int

definition DefaultDialOpts :: DialOpts where
  "DefaultDialOpts = \<lparr>Timeout = 10 * Minute, RetryDelay = 2 * Second\<rparr>"

text \<open>
  The \<open>State\<close> struct. Its three fields are references: \<open>client\<close> and \<open>conn\<close> name
  the connection the session runs on, \<open>broken\<close> is a channel, \<open>None\<close> while the field
  is still nil.
\<close>

record State =
  client :: nat
  conn :: nat
  broken :: "nat option"

record TlsConfig =
  RootCAs :: "8 word list list"
  ServerName :: string

record Config =
  Location :: string
  Origin :: string
  TlsCfg :: "TlsConfig option"

subsection \<open>The world the client runs in\<close>

datatype chan_status = ChanOpen | ChanClosed

datatype conn_status = ConnOpen | ConnClosed

text \<open>
  Every effect of the client is recorded, in order, as an event stamped with the time
  at which it began. Log lines are not recorded.
\<close>

datatype event =
    EvDial string
  | EvSleep int
  | EvStart nat
  | EvLogin string string
  | EvConnClose nat
  | EvCall string string string
  | EvMake nat
  | EvClose nat
  | EvGo nat

text \<open>
  The mutable world: the clock in nanoseconds, the events so far, the number of dial
  attempts and of RPC requests issued so far, the store of connections, the store of
  channels with the next fresh channel reference, and the package variable
  \<open>PingPeriod\<close>.
\<close>

record world =
  now :: int
  trace :: "(int \<times> event) list"
  dials :: nat
  calls :: nat
  conns :: "nat \<rightharpoonup> conn_status"
  chans :: "nat \<rightharpoonup> chan_status"
  next_chan :: nat
  PingPeriod :: int

text \<open>\<open>var PingPeriod = 5 * time.Second\<close>: the world a process starts in.\<close>

definition init_world :: world where
  "init_world = \<lparr>now = 0, trace = [], dials = 0, calls = 0, conns = Map.empty,
     chans = Map.empty, next_chan = 0, PingPeriod = 5 * Second\<rparr>"

text \<open>
  The collaborators outside the file are parameters: what \<open>websocket.NewConfig\<close> and
  \<open>cert.ParseCert\<close> answer, whether the n-th \<open>websocket.DialConfig\<close> succeeds and how
  long it takes, what \<open>Login\<close> answers, what the n-th request on the RPC connection
  answers, and the error translation \<open>clientError\<close>.
\<close>

record env =
  newConfig_err :: "string \<Rightarrow> string \<Rightarrow> err option"
  parseCert :: "8 word list \<Rightarrow> err + 8 word list"
  dial_outcome :: "Config \<Rightarrow> nat \<Rightarrow> err option"
  dial_time :: "nat \<Rightarrow> int"
  login_outcome :: "string \<Rightarrow> string \<Rightarrow> err option"
  rpc_outcome :: "nat \<Rightarrow> string \<Rightarrow> string \<Rightarrow> string \<Rightarrow> err option"
  clientError :: "err option \<Rightarrow> err option"

subsection \<open>Primitive effects\<close>

definition emit :: "event \<Rightarrow> world \<Rightarrow> world" where
  "emit e w = w\<lparr>trace := trace w @ [(now w, e)]\<rparr>"

definition events :: "world \<Rightarrow> event list" where
  "events w = map snd (trace w)"

text \<open>The stamped events of a run from the world \<open>w\<close> to the world \<open>w'\<close>.\<close>

definition since :: "world \<Rightarrow> world \<Rightarrow> (int \<times> event) list" where
  "since w w' = drop (length (trace w)) (trace w')"

text \<open>\<open>time.Sleep(d)\<close> returns at once when \<open>d\<close> is zero or negative.\<close>

definition Sleep :: "int \<Rightarrow> world \<Rightarrow> world" where
  "Sleep d w = (emit (EvSleep d) w)\<lparr>now := now w + max 0 d\<rparr>"

definition NewConfig :: "env \<Rightarrow> string \<Rightarrow> string \<Rightarrow> err + Config" where
  "NewConfig env server origin =
     (case newConfig_err env server origin of
        Some e \<Rightarrow> Inl e
      | None \<Rightarrow> Inr \<lparr>Location = server, Origin = origin, TlsCfg = None\<rparr>)"

text \<open>
  \<open>websocket.DialConfig(cfg)\<close>: the attempt is the n-th of the process, takes at least
  one tick of the clock, and on success yields a fresh open connection.
\<close>

definition DialConfig :: "env \<Rightarrow> Config \<Rightarrow> world \<Rightarrow> (err + nat) \<times> world" where
  "DialConfig env cfg w =
     (let n = dials w;
          w1 = (emit (EvDial (Location cfg)) w)
                 \<lparr>now := now w + max 1 (dial_time env n), dials := Suc n\<rparr>
      in case dial_outcome env cfg n of
           Some e \<Rightarrow> (Inl e, w1)
         | None \<Rightarrow> (Inr n, w1\<lparr>conns := (conns w1)(n \<mapsto> ConnOpen)\<rparr>))"

definition conn_Close :: "nat \<Rightarrow> world \<Rightarrow> world" where
  "conn_Close c w = emit (EvConnClose c) (w\<lparr>conns := (conns w)(c \<mapsto> ConnClosed)\<rparr>)"

definition client_Start :: "nat \<Rightarrow> world \<Rightarrow> world" where
  "client_Start c w = emit (EvStart c) w"

definition make_chan :: "world \<Rightarrow> nat \<times> world" where
  "make_chan w =
     (let c = next_chan w
      in (c, emit (EvMake c) (w\<lparr>chans := (chans w)(c \<mapsto> ChanOpen), next_chan := Suc c\<rparr>)))"

text \<open>\<open>close(ch)\<close> panics on a nil channel and on a channel that is closed already.\<close>

definition close_chan :: "nat option \<Rightarrow> world \<Rightarrow> failure option \<times> world" where
  "close_chan r w =
     (case r of
        None \<Rightarrow> (Some (Panic ''close of nil channel''), w)
      | Some c \<Rightarrow>
          (case chans w c of
             Some ChanOpen \<Rightarrow> (None, emit (EvClose c) (w\<lparr>chans := (chans w)(c \<mapsto> ChanClosed)\<rparr>))
           | Some ChanClosed \<Rightarrow> (Some (Panic ''close of closed channel''), w)
           | None \<Rightarrow> (Some (Panic ''close of nil channel''), w)))"

text \<open>
  \<open>Login\<close> is a method of \<open>State\<close> from another file of the package, not in the
  sources: what it answers is a parameter.
\<close>

definition Login :: "env \<Rightarrow> State \<Rightarrow> string \<Rightarrow> string \<Rightarrow> world \<Rightarrow> err option \<times> world" where
  "Login env s tag password w = (login_outcome env tag password, emit (EvLogin tag password) w)"

subsection \<open>The attempt strategy\<close>

text \<open>
  Modelled from the spec: the type \<open>utils.AttemptStrategy\<close> and its iterator, which are
  not in the sources. \<open>Open\<close> fills \<open>Total\<close> with the timeout and \<open>Delay\<close> with the
  retry delay; the spec says of the dial that it, "on transient failure, retries after
  retryDelay until timeout elapses, then returns a terminal failure".
\<close>

record AttemptStrategy =
  Total :: int
  Delay :: int

record Attempt =
  strategy :: AttemptStrategy
  deadline :: int
  fresh :: bool

text \<open>
  Modelled from the spec: \<open>AttemptStrategy.Start\<close>, not in the sources. The budget
  \<open>Total\<close> runs from the moment of \<open>Start\<close>.
\<close>

definition Start :: "AttemptStrategy \<Rightarrow> world \<Rightarrow> Attempt" where
  "Start s w = \<lparr>strategy = s, deadline = now w + Total s, fresh = True\<rparr>"

text \<open>
  Modelled from the spec: \<open>Attempt.Next\<close>, not in the sources. The first \<open>Next\<close>
  always grants an attempt; each later \<open>Next\<close> sleeps \<open>Delay\<close> and grants one, as
  long as that attempt still starts before \<open>Total\<close> has elapsed, and refuses
  otherwise.
\<close>

definition Next :: "Attempt \<Rightarrow> world \<Rightarrow> bool \<times> Attempt \<times> world" where
  "Next a w =
     (if fresh a then (True, a\<lparr>fresh := False\<rparr>, w)
      else if now w + max 0 (Delay (strategy a)) < deadline a
        then (True, a, Sleep (Delay (strategy a)) w)
        else (False, a, w))"

subsection \<open>Open\<close>

text \<open>
  The retry loop of \<open>Open\<close>, with the variables \<open>conn\<close> and \<open>err\<close> it assigns:
  \<^verbatim>\<open>for a := openAttempt.Start(); a.Next(); { conn, err = websocket.DialConfig(cfg); if err == nil { break } }\<close>
\<close>

function dial_loop ::
  "env \<Rightarrow> Config \<Rightarrow> Attempt \<Rightarrow> nat option \<Rightarrow> err option \<Rightarrow> world
     \<Rightarrow> nat option \<times> err option \<times> world" where
  "dial_loop env cfg a cn er w =
     (case Next a w of
        (False, a', w') \<Rightarrow> (cn, er, w')
      | (True, a', w') \<Rightarrow>
          (case DialConfig env cfg w' of
             (Inr c, w'') \<Rightarrow> (Some c, None, w'')
           | (Inl e, w'') \<Rightarrow> dial_loop env cfg a' None (Some e) w''))"
  by pat_completeness auto
termination
  apply (relation "measure (\<lambda>(env, cfg, a, cn, er, w).
          (if fresh a then 1 else 0) + nat (deadline a - now w))")
   apply simp
  apply (auto simp: Next_def DialConfig_def Sleep_def emit_def Let_def
              split: if_splits option.splits)
  done

declare dial_loop.simps [simp del]

text \<open>
  \<open>Open\<close> up to the test of \<open>err\<close> after the loop: the address, the configuration,
  the certificate and the retry loop. The result is the connection, or the failure
  \<open>Open\<close> ends with. A loop left with both \<open>conn\<close> and \<open>err\<close> nil would go on with
  a nil connection; that is a fault here.
\<close>

definition Open_dial :: "env \<Rightarrow> Info \<Rightarrow> DialOpts \<Rightarrow> world \<Rightarrow> (failure + nat) \<times> world" where
  "Open_dial env info opts w =
     (case Addrs info of
        [] \<Rightarrow> (Inl (Panic ''index out of range''), w)
      | addr0 # _ \<Rightarrow>
          (case NewConfig env (''wss://'' @ addr0 @ ''/'') ''http://localhost/'' of
             Inl e \<Rightarrow> (Inl (Failed e), w)
           | Inr cfg0 \<Rightarrow>
               (case parseCert env (CACert info) of
                  Inl e \<Rightarrow> (Inl (Failed e), w)
                | Inr xcert \<Rightarrow>
                    (let cfg = cfg0\<lparr>TlsCfg := Some \<lparr>RootCAs = [xcert], ServerName = ''anything''\<rparr>\<rparr>;
                         openAttempt = \<lparr>Total = Timeout opts, Delay = RetryDelay opts\<rparr>;
                         (cn, er, w1) = dial_loop env cfg (Start openAttempt w) None None w
                     in case er of
                          Some e \<Rightarrow> (Inl (Failed e), w1)
                        | None \<Rightarrow>
                            (case cn of
                               None \<Rightarrow> (Inl (Panic ''nil pointer dereference''), w1)
                             | Some c \<Rightarrow> (Inr c, w1))))))"

text \<open>
  The rest of \<open>Open\<close>, on the connection \<open>c\<close>: the RPC client is started, the login
  is made if asked for, the channel is made and the monitor is started in its own
  goroutine (\<open>EvGo\<close>; the monitor itself is \<open>heartbeatMonitor\<close> below).
\<close>

definition finish_Open :: "State \<Rightarrow> world \<Rightarrow> (failure + State) \<times> world" where
  "finish_Open st w =
     (let (ch, w1) = make_chan w;
          st' = st\<lparr>broken := Some ch\<rparr>
      in (Inr st', emit (EvGo ch) w1))"

definition Open_session :: "env \<Rightarrow> Info \<Rightarrow> nat \<Rightarrow> world \<Rightarrow> (failure + State) \<times> world" where
  "Open_session env info c w1 =
     (let w2 = client_Start c w1;
          st = \<lparr>client = c, conn = c, broken = None\<rparr>
      in if Tag info \<noteq> [] \<or> Password info \<noteq> []
         then (case Login env st (Tag info) (Password info) w2 of
                 (Some e, w3) \<Rightarrow> (Inl (Failed e), conn_Close c w3)
               | (None, w3) \<Rightarrow> finish_Open st w3)
         else finish_Open st w2)"

definition Open :: "env \<Rightarrow> Info \<Rightarrow> DialOpts \<Rightarrow> world \<Rightarrow> (failure + State) \<times> world" where
  "Open env info opts w =
     (case Open_dial env info opts w of
        (Inl f, w1) \<Rightarrow> (Inl f, w1)
      | (Inr c, w1) \<Rightarrow> Open_session env info c w1)"

subsection \<open>Call, the heartbeat monitor, Broken\<close>

text \<open>
  \<open>s.client.Call\<close> belongs to the rpc package, which is not in the sources: the n-th
  request is answered by the environment and changes nothing but the request counter of
  the connection. Parameters and response of a request are not modelled.
\<close>

definition rpc_Call ::
  "env \<Rightarrow> nat \<Rightarrow> string \<Rightarrow> string \<Rightarrow> string \<Rightarrow> world \<Rightarrow> err option \<times> world" where
  "rpc_Call env cl objType ident request w =
     (rpc_outcome env (calls w) objType ident request,
      emit (EvCall objType ident request) (w\<lparr>calls := Suc (calls w)\<rparr>))"

definition Call ::
  "env \<Rightarrow> State \<Rightarrow> string \<Rightarrow> string \<Rightarrow> string \<Rightarrow> world \<Rightarrow> err option \<times> world" where
  "Call env s objType ident request w =
     (let (er, w1) = rpc_Call env (client s) objType ident request w
      in (clientError env er, w1))"

definition Broken :: "State \<Rightarrow> nat option" where
  "Broken s = broken s"

definition RPCClient :: "State \<Rightarrow> nat" where
  "RPCClient s = client s"

text \<open>What an observer holding the channel \<open>r\<close> sees in the world \<open>w\<close>.\<close>

definition observe :: "world \<Rightarrow> nat option \<Rightarrow> chan_status option" where
  "observe w r = (case r of None \<Rightarrow> None | Some c \<Rightarrow> chans w c)"

definition ping :: "env \<Rightarrow> State \<Rightarrow> world \<Rightarrow> err option \<times> world" where
  "ping env s w = Call env s ''State'' [] ''Ping'' w"

text \<open>
  The monitor loops for as long as the probes succeed, so it need not return: \<open>None\<close>
  is a monitor that runs forever, \<open>Some (None, w)\<close> one that returned in the world
  \<open>w\<close>, \<open>Some (Some p, w)\<close> one that faulted.
\<close>

partial_function (option) heartbeatMonitor ::
  "env \<Rightarrow> State \<Rightarrow> world \<Rightarrow> (failure option \<times> world) option" where
  "heartbeatMonitor env s w =
     (case ping env s w of
        (Some e, w1) \<Rightarrow> Some (close_chan (broken s) w1)
      | (None, w1) \<Rightarrow> heartbeatMonitor env s (Sleep (PingPeriod w1) w1))"

text \<open>Assigning to the package variable, as a test does.\<close>

definition set_PingPeriod :: "int \<Rightarrow> world \<Rightarrow> world" where
  "set_PingPeriod d w = w\<lparr>PingPeriod := d\<rparr>"

section \<open>The file-notify watcher\<close>

text \<open>
  The constants of the inotify package (\<open>IN_CREATE\<close>, \<open>IN_DELETE\<close>) and the event it
  delivers.
\<close>

definition InCreate :: "32 word" where
  "InCreate = 0x100"

definition InDelete :: "32 word" where
  "InDelete = 0x200"

record Event =
  Mask :: "32 word"
  Name :: string

datatype eventType = unknown | created | deleted

definition maskType :: "32 word \<Rightarrow> eventType" where
  "maskType m =
     (if m AND InCreate \<noteq> 0 then created
      else if m AND InDelete \<noteq> 0 then deleted
      else unknown)"

record Watcher =
  namespace :: string
  watchPath :: string

text \<open>
  What the loop has done so far: the values sent on \<open>changes\<close>, the errors logged
  (\<open>None\<close> for a nil error), whether the inotify watcher and the \<open>changes\<close> channel are
  closed.
\<close>

record wstate =
  sent :: "bool list"
  logged :: "err option list"
  watcher_closed :: bool
  changes_closed :: bool

text \<open>
  The loop blocks in \<open>select\<close>; which case fires is decided outside it, by what is
  ready and by the run-time system's choice among the ready cases. A schedule is the
  list of what fires, in order: the Dying channel, an event, or an error. The inotify
  watcher may close its channels (its \<open>Close\<close> "closes the events channel"); a receive
  from a closed channel yields nil at once: \<open>SelEventsClosed\<close> and \<open>SelErrorsClosed\<close>.
  An event that passes the two filters is sent on the unbuffered \<open>changes\<close> channel, and
  the send completes only when a receiver takes the value: the flag of \<open>SelEvent\<close>
  says whether one does. The send is a plain statement outside the \<open>select\<close>, so a loop
  blocked in it stays there whatever fires afterwards.
\<close>

datatype select_case =
    SelDying
  | SelEvent Event bool
  | SelEventsClosed
  | SelError err
  | SelErrorsClosed

datatype loop_status = Returned err | Panicked string | Selecting | Sending

text \<open>\<open>w.catacomb.ErrDying()\<close>, the error of the catacomb package for a dying catacomb.\<close>

definition ErrDying :: err where
  "ErrDying = Err ''catacomb is dying''"

text \<open>
  The \<open>for { select { ... } }\<close> of \<open>loop\<close>: \<open>Selecting\<close> is a loop waiting in
  \<open>select\<close> at the end of the schedule, \<open>Sending\<close> one blocked in the send. On a nil
  event \<open>event.Name\<close> dereferences a nil pointer and the loop panics; a nil error is
  logged like any other.
\<close>

fun loop_body :: "Watcher \<Rightarrow> select_case list \<Rightarrow> wstate \<Rightarrow> loop_status \<times> wstate" where
  "loop_body w [] s = (Selecting, s)"
| "loop_body w (SelDying # rest) s = (Returned ErrDying, s)"
| "loop_body w (SelEvent ev taken # rest) s =
     (if Name ev \<noteq> watchPath w then loop_body w rest s
      else if maskType (Mask ev) = unknown then loop_body w rest s
      else (let cr = (Mask ev AND InCreate \<noteq> 0)
            in if taken then loop_body w rest (s\<lparr>sent := sent s @ [cr]\<rparr>)
               else (Sending, s)))"
| "loop_body w (SelEventsClosed # rest) s =
     (Panicked ''invalid memory address or nil pointer dereference'', s)"
| "loop_body w (SelError e # rest) s = loop_body w rest (s\<lparr>logged := logged s @ [Some e]\<rparr>)"
| "loop_body w (SelErrorsClosed # rest) s = loop_body w rest (s\<lparr>logged := logged s @ [None]\<rparr>)"

text \<open>The deferred function: \<open>w.watcher.Close()\<close> and \<open>close(w.changes)\<close>.\<close>

definition deferred :: "wstate \<Rightarrow> wstate" where
  "deferred s = s\<lparr>watcher_closed := True, changes_closed := True\<rparr>"

text \<open>
  \<open>loop\<close>: the deferred function runs when the body returns and when it panics, and
  at no other time.
\<close>

definition loop :: "Watcher \<Rightarrow> select_case list \<Rightarrow> wstate \<Rightarrow> loop_status \<times> wstate" where
  "loop w sched s =
     (case loop_body w sched s of
        (Returned e, s') \<Rightarrow> (Returned e, deferred s')
      | (Panicked p, s') \<Rightarrow> (Panicked p, deferred s')
      | (st, s') \<Rightarrow> (st, s'))"

definition wstate0 :: wstate where
  "wstate0 = \<lparr>sent = [], logged = [], watcher_closed = False, changes_closed = False\<rparr>"


section \<open>Vocabulary of the statements\<close>

text \<open>
  After the first attempt, the stamped events of the retry loop come in pairs: a sleep of
  \<open>d\<close>, then a dial of \<open>loc\<close> that starts when the sleep ends and before the
  deadline \<open>dl\<close>.
\<close>

fun retries :: "string \<Rightarrow> int \<Rightarrow> int \<Rightarrow> (int \<times> event) list \<Rightarrow> bool" where
  "retries loc d dl [] = True"
| "retries loc d dl [x] = False"
| "retries loc d dl (x # y # evs) =
     (snd x = EvSleep d \<and> y = (fst x + max 0 d, EvDial loc) \<and> fst y < dl \<and> retries loc d dl evs)"

text \<open>
  The stamped events of a run of the retry loop: a loop that has made no attempt yet
  (\<open>fr\<close>) dials at once, at \<open>t0\<close>, and then retries.
\<close>

definition attempts :: "string \<Rightarrow> int \<Rightarrow> int \<Rightarrow> bool \<Rightarrow> int \<Rightarrow> (int \<times> event) list \<Rightarrow> bool" where
  "attempts loc d dl fr t0 evs =
     (if fr then (case evs of [] \<Rightarrow> False | x # rest \<Rightarrow> x = (t0, EvDial loc) \<and> retries loc d dl rest)
      else retries loc d dl evs)"

text \<open>
  What a run of the retry loop from \<open>(a, cn, er, w)\<close> to \<open>(cn', er', w')\<close> has done.
  Either no attempt was granted, or at least one attempt was made, every attempt but the
  last failed, the last attempt began before the deadline (or was the first of a fresh
  loop), and the run ended with a connection or with the last error and no budget left.
\<close>

definition loop_post ::
  "env \<Rightarrow> Config \<Rightarrow> Attempt \<Rightarrow> nat option \<Rightarrow> err option \<Rightarrow> world
     \<Rightarrow> nat option \<Rightarrow> err option \<Rightarrow> world \<Rightarrow> bool" where
  "loop_post env cfg a cn er w cn' er' w' =
     (((\<not> fresh a \<and> cn' = cn \<and> er' = er \<and> w' = w \<and>
          deadline a \<le> now w + max 0 (Delay (strategy a)))
       \<or> (dials w < dials w' \<and>
           (\<forall>n. dials w \<le> n \<and> Suc n < dials w' \<longrightarrow> dial_outcome env cfg n \<noteq> None) \<and>
           (now w' - max 1 (dial_time env (dials w' - 1)) < deadline a \<or>
              fresh a \<and> now w' - max 1 (dial_time env (dials w' - 1)) = now w) \<and>
           ((cn' = Some (dials w' - 1) \<and> er' = None \<and>
               dial_outcome env cfg (dials w' - 1) = None \<and>
               conns w' = (conns w)(dials w' - 1 \<mapsto> ConnOpen))
            \<or> (cn' = None \<and> er' \<noteq> None \<and> er' = dial_outcome env cfg (dials w' - 1) \<and>
                conns w' = conns w \<and>
                deadline a \<le> now w' + max 0 (Delay (strategy a))))))
      \<and> chans w' = chans w \<and> calls w' = calls w \<and> next_chan w' = next_chan w
      \<and> PingPeriod w' = PingPeriod w \<and> now w \<le> now w')"

text \<open>The configuration \<open>Open\<close> dials with, for the first address and the parsed certificate.\<close>

definition dial_cfg :: "string \<Rightarrow> 8 word list \<Rightarrow> Config" where
  "dial_cfg addr0 xcert =
     \<lparr>Location = ''wss://'' @ addr0 @ ''/'', Origin = ''http://localhost/'',
      TlsCfg = Some \<lparr>RootCAs = [xcert], ServerName = ''anything''\<rparr>\<rparr>"

text \<open>\<open>Open\<close> reaches its retry loop: there is a first address, and the configuration and the certificate are accepted.\<close>

definition reaches_loop :: "env \<Rightarrow> Info \<Rightarrow> string \<Rightarrow> 8 word list \<Rightarrow> bool" where
  "reaches_loop env info addr0 xcert =
     (case Addrs info of
        [] \<Rightarrow> False
      | a # rest \<Rightarrow>
          a = addr0 \<and>
          newConfig_err env (''wss://'' @ addr0 @ ''/'') ''http://localhost/'' = None \<and>
          parseCert env (CACert info) = Inr xcert)"

text \<open>
  The stamped events of a monitor that probes successfully \<open>k\<close> times, sleeping
  \<open>p\<close> after each success, and then probes once more; \<open>t\<close> is the time of the
  first probe.
\<close>

fun probe_events :: "nat \<Rightarrow> int \<Rightarrow> int \<Rightarrow> (int \<times> event) list" where
  "probe_events 0 t p = [(t, EvCall ''State'' [] ''Ping'')]"
| "probe_events (Suc k) t p =
     (t, EvCall ''State'' [] ''Ping'') # (t, EvSleep p) # probe_events k (t + max 0 p) p"

text \<open>The durations of the sleeps among stamped events, in order.\<close>

fun sleeps :: "(int \<times> event) list \<Rightarrow> int list" where
  "sleeps [] = []"
| "sleeps ((t, EvSleep d) # evs) = d # sleeps evs"
| "sleeps (x # evs) = sleeps evs"

section \<open>Example inputs\<close>

text \<open>
  An environment: every configuration is accepted, an empty certificate is refused, the
  first two dial attempts are refused and the third succeeds after 10 ms each, only the
  password \<open>secret\<close> logs in, and the connection answers two requests before it
  breaks.
\<close>

definition ex_env :: env where
  "ex_env =
     \<lparr>newConfig_err = (\<lambda>server origin. None),
      parseCert = (\<lambda>pem. if pem = [] then Inl (Err ''no certificates found'') else Inr pem),
      dial_outcome = (\<lambda>cfg n. if n < 2 then Some (Err ''connection refused'') else None),
      dial_time = (\<lambda>n. 10 * Millisecond),
      login_outcome = (\<lambda>tag password.
         if password = ''secret'' then None else Some (Err ''invalid entity name or password'')),
      rpc_outcome = (\<lambda>n objType ident request.
         if n < 2 then None else Some (Err ''connection is shut down'')),
      clientError = (\<lambda>e. e)\<rparr>"

text \<open>The same environment with an endpoint that refuses every attempt.\<close>

definition ex_refusing :: env where
  "ex_refusing = ex_env\<lparr>dial_outcome := (\<lambda>cfg n. Some (Err ''connection refused''))\<rparr>"

text \<open>Two addresses, a certificate, an identity.\<close>


definition ex_info :: Info where
  "ex_info = \<lparr>Addrs = [''a:17070'', ''b:17070''], CACert = [45, 45], Tag = ''user-admin'',
              Password = ''secret''\<rparr>"

definition ex_opts :: DialOpts where
  "ex_opts = \<lparr>Timeout = 200 * Millisecond, RetryDelay = 50 * Millisecond\<rparr>"

definition ex_badlogin :: Info where
  "ex_badlogin = ex_info\<lparr>Password := ''guess''\<rparr>"

definition ex_anonymous :: Info where
  "ex_anonymous = ex_info\<lparr>Tag := [], Password := []\<rparr>"

definition ex_badcert :: Info where
  "ex_badcert = ex_info\<lparr>CACert := []\<rparr>"

definition ex_watcher :: Watcher where
  "ex_watcher = \<lparr>namespace = ''controller'', watchPath = ''/watchers/controller''\<rparr>"

text \<open>The session \<open>Open\<close> returns on these inputs, and the world it returns it in.\<close>

definition ex_session :: State where
  "ex_session = \<lparr>client = 2, conn = 2, broken = Some 0\<rparr>"

definition ex_world :: world where
  "ex_world = snd (Open ex_env ex_info ex_opts init_world)"

section \<open>The retry loop\<close>

lemma Next_cases:
  "Next a w = (g, a', w') \<Longrightarrow>
     strategy a' = strategy a \<and> deadline a' = deadline a \<and> \<not> fresh a' \<and>
     (fresh a \<longrightarrow> g \<and> w' = w) \<and>
     (\<not> fresh a \<longrightarrow> a' = a \<and> g = (now w + max 0 (Delay (strategy a)) < deadline a) \<and>
        (g \<longrightarrow> w' = Sleep (Delay (strategy a)) w) \<and> (\<not> g \<longrightarrow> w' = w))"
  by (auto simp: Next_def split: if_splits)

lemma dial_loop_trace:
  "dial_loop env cfg a cn er w = (cn', er', w') \<Longrightarrow>
     \<exists>evs. trace w' = trace w @ evs \<and>
       attempts (Location cfg) (Delay (strategy a)) (deadline a) (fresh a) (now w) evs"
proof (induction env cfg a cn er w arbitrary: cn' er' w' rule: dial_loop.induct)
  case (1 env cfg a cn er w)
  obtain g a1 w1 where nx: "Next a w = (g, a1, w1)" by (cases "Next a w") auto
  note nc = Next_cases [OF nx]
  show ?case
  proof (cases g)
    case False
    with nx "1.prems" nc show ?thesis
      by (subst (asm) dial_loop.simps) (auto simp: attempts_def)
  next
    case True
    obtain r w2 where dc: "DialConfig env cfg w1 = (r, w2)" by (cases "DialConfig env cfg w1") auto
    have tr2: "trace w2 = trace w1 @ [(now w1, EvDial (Location cfg))]"
      using dc by (auto simp: DialConfig_def emit_def Let_def split: option.splits)
    have tr1: "trace w1 = trace w @ (if fresh a then [] else [(now w, EvSleep (Delay (strategy a)))])"
      and n1: "now w1 = (if fresh a then now w else now w + max 0 (Delay (strategy a)))"
      using nc True by (auto simp: Sleep_def emit_def)
    have bud: "\<not> fresh a \<Longrightarrow> now w1 < deadline a"
      using nc True n1 by auto
    show ?thesis
    proof (cases r)
      case (Inr c)
      with nx True dc "1.prems" have "w' = w2"
        by (subst (asm) dial_loop.simps) auto
      with tr1 tr2 n1 bud show ?thesis
        by (auto simp: attempts_def)
    next
      case (Inl e)
      with nx True dc "1.prems" have rec: "dial_loop env cfg a1 None (Some e) w2 = (cn', er', w')"
        by (subst (asm) dial_loop.simps) auto
      have "\<exists>evs. trace w' = trace w2 @ evs \<and>
         attempts (Location cfg) (Delay (strategy a1)) (deadline a1) (fresh a1) (now w2) evs"
        using "1.IH" [of g "(a1, w1)" a1 w1 r w2 e cn' er' w'] nx True dc Inl rec by simp
      then obtain evs where e1: "trace w' = trace w2 @ evs"
        and e2: "retries (Location cfg) (Delay (strategy a)) (deadline a) evs"
        using nc by (auto simp: attempts_def)
      with tr1 tr2 n1 bud show ?thesis
        by (auto simp: attempts_def)
    qed
  qed
qed

lemma DialConfig_cases:
  "DialConfig env cfg w = (r, w') \<Longrightarrow>
     dials w' = Suc (dials w) \<and> now w' = now w + max 1 (dial_time env (dials w)) \<and>
     chans w' = chans w \<and> calls w' = calls w \<and> next_chan w' = next_chan w \<and>
     PingPeriod w' = PingPeriod w \<and>
     (case r of
        Inl e \<Rightarrow> dial_outcome env cfg (dials w) = Some e \<and> conns w' = conns w
      | Inr c \<Rightarrow> c = dials w \<and> dial_outcome env cfg (dials w) = None \<and>
                 conns w' = (conns w)(c \<mapsto> ConnOpen))"
  by (auto simp: DialConfig_def emit_def Let_def split: option.splits)

lemma Sleep_frame:
  "dials (Sleep d w) = dials w" "conns (Sleep d w) = conns w" "chans (Sleep d w) = chans w"
  "calls (Sleep d w) = calls w" "next_chan (Sleep d w) = next_chan w"
  "PingPeriod (Sleep d w) = PingPeriod w" "now (Sleep d w) = now w + max 0 d"
  by (simp_all add: Sleep_def emit_def)

lemma dial_loop_post:
  "dial_loop env cfg a cn er w = (cn', er', w') \<Longrightarrow> loop_post env cfg a cn er w cn' er' w'"
proof (induction env cfg a cn er w arbitrary: cn' er' w' rule: dial_loop.induct)
  case (1 env cfg a cn er w)
  obtain g a1 w1 where nx: "Next a w = (g, a1, w1)" by (cases "Next a w") auto
  note nc = Next_cases [OF nx]
  show ?case
  proof (cases g)
    case False
    with nx "1.prems" nc show ?thesis
      by (subst (asm) dial_loop.simps) (auto simp: loop_post_def)
  next
    case True
    obtain r w2 where dc: "DialConfig env cfg w1 = (r, w2)" by (cases "DialConfig env cfg w1") auto
    note dcc = DialConfig_cases [OF dc]
    have w1: "dials w1 = dials w" "conns w1 = conns w" "chans w1 = chans w" "calls w1 = calls w"
      "next_chan w1 = next_chan w" "PingPeriod w1 = PingPeriod w" "now w \<le> now w1"
      using nc True by (cases "fresh a"; simp add: Sleep_frame)+
    show ?thesis
    proof (cases r)
      case (Inr c)
      with nx True dc "1.prems" have "w' = w2" "cn' = Some c" "er' = None"
        by (subst (asm) dial_loop.simps; auto)+
      moreover have "fresh a \<Longrightarrow> now w1 = now w" "\<not> fresh a \<Longrightarrow> now w1 < deadline a"
        using nc True by (auto simp: Sleep_frame)
      ultimately show ?thesis
        using dcc w1 Inr by (cases "fresh a") (auto simp: loop_post_def)
    next
      case (Inl e)
      with nx True dc "1.prems" have rec: "dial_loop env cfg a1 None (Some e) w2 = (cn', er', w')"
        by (subst (asm) dial_loop.simps) auto
      have ih: "loop_post env cfg a1 None (Some e) w2 cn' er' w'"
        using "1.IH" [of g "(a1, w1)" a1 w1 r w2 e cn' er' w'] nx True dc Inl rec by simp
      have o: "dial_outcome env cfg (dials w) = Some e" "dials w2 = Suc (dials w)"
        "conns w2 = conns w" "now w < now w2" "chans w2 = chans w" "calls w2 = calls w"
        "next_chan w2 = next_chan w" "PingPeriod w2 = PingPeriod w"
        using dcc w1 Inl by auto
      have st: "now w2 - max 1 (dial_time env (dials w2 - 1)) < deadline a \<or>
              fresh a \<and> now w2 - max 1 (dial_time env (dials w2 - 1)) = now w"
        using dcc w1 nc True by (cases "fresh a") (auto simp: Sleep_frame)
      have a1: "strategy a1 = strategy a" "deadline a1 = deadline a" "\<not> fresh a1"
        using nc by auto
      have ext: "\<forall>n. dials w \<le> n \<and> Suc n < dials w' \<longrightarrow> dial_outcome env cfg n \<noteq> None"
        if "\<forall>n. dials w2 \<le> n \<and> Suc n < dials w' \<longrightarrow> dial_outcome env cfg n \<noteq> None"
      proof (intro allI impI)
        fix n assume n: "dials w \<le> n \<and> Suc n < dials w'"
        show "dial_outcome env cfg n \<noteq> None"
        proof (cases "n = dials w")
          case True
          with o show ?thesis by simp
        next
          case False
          with n o have "dials w2 \<le> n \<and> Suc n < dials w'" by simp
          with that show ?thesis by blast
        qed
      qed
      from ih show ?thesis
        unfolding loop_post_def
      proof (elim conjE disjE, goal_cases)
        case 1
        with o a1 st show ?case by auto
      next
        case 2
        from 2 ext have A: "\<forall>n. dials w \<le> n \<and> Suc n < dials w' \<longrightarrow> dial_outcome env cfg n \<noteq> None"
          by blast
        from 2 o have B: "dials w < dials w'" "now w \<le> now w'" by simp_all
        show ?case using 2 o a1 A B by simp
      next
        case 3
        from 3 ext have A: "\<forall>n. dials w \<le> n \<and> Suc n < dials w' \<longrightarrow> dial_outcome env cfg n \<noteq> None"
          by blast
        from 3 o have B: "dials w < dials w'" "now w \<le> now w'" by simp_all
        show ?case using 3 o a1 A B by simp
      next
        case 4
        from 4 ext have A: "\<forall>n. dials w \<le> n \<and> Suc n < dials w' \<longrightarrow> dial_outcome env cfg n \<noteq> None"
          by blast
        from 4 o have B: "dials w < dials w'" "now w \<le> now w'" by simp_all
        show ?case using 4 o a1 A B by simp
      next
        case 5
        from 5 ext have A: "\<forall>n. dials w \<le> n \<and> Suc n < dials w' \<longrightarrow> dial_outcome env cfg n \<noteq> None"
          by blast
        from 5 o have B: "dials w < dials w'" "now w \<le> now w'" by simp_all
        show ?case using 5 o a1 A B by simp
      qed
    qed
  qed
qed

lemma retries_events:
  "retries loc d dl evs \<Longrightarrow> (t, e) \<in> set evs \<Longrightarrow> e = EvDial loc \<or> e = EvSleep d"
  by (induction loc d dl evs rule: retries.induct) auto

lemma attempts_events:
  "attempts loc d dl fr t0 evs \<Longrightarrow> (t, e) \<in> set evs \<Longrightarrow> e = EvDial loc \<or> e = EvSleep d"
  by (auto simp: attempts_def split: if_splits list.splits dest: retries_events)

lemma Open_dial_loop:
  assumes "reaches_loop env info addr0 xcert"
  shows "\<exists>cn er w1.
           dial_loop env (dial_cfg addr0 xcert)
             (Start \<lparr>Total = Timeout opts, Delay = RetryDelay opts\<rparr> w) None None w = (cn, er, w1) \<and>
           Open_dial env info opts w =
             (case er of
                Some e \<Rightarrow> (Inl (Failed e), w1)
              | None \<Rightarrow> (case cn of None \<Rightarrow> (Inl (Panic ''nil pointer dereference''), w1)
                                   | Some c \<Rightarrow> (Inr c, w1)))"
proof -
  obtain cn er w1 where
    "dial_loop env (dial_cfg addr0 xcert)
       (Start \<lparr>Total = Timeout opts, Delay = RetryDelay opts\<rparr> w) None None w = (cn, er, w1)"
    using prod_cases3 by blast
  with assms show ?thesis
    by (auto simp: reaches_loop_def Open_dial_def NewConfig_def dial_cfg_def split: list.splits)
qed

lemma Open_dial_not_reached:
  assumes "\<forall>addr0 xcert. \<not> reaches_loop env info addr0 xcert"
  shows "snd (Open_dial env info opts w) = w \<and> (\<forall>c. fst (Open_dial env info opts w) \<noteq> Inr c) \<and>
         (\<forall>p. fst (Open_dial env info opts w) = Inl (Panic p) \<longrightarrow> Addrs info = [])"
  using assms
  by (auto simp: reaches_loop_def Open_dial_def NewConfig_def split: list.splits option.splits sum.splits)

lemma Start_simps:
  "fresh (Start s w)" "deadline (Start s w) = now w + Total s" "strategy (Start s w) = s"
  by (simp_all add: Start_def)

lemma Open_dial_trace:
  assumes "Open_dial env info opts w = (r, w1)"
  shows "\<exists>evs. trace w1 = trace w @ evs \<and>
           (\<forall>t e. (t, e) \<in> set evs \<longrightarrow>
              e = EvDial (''wss://'' @ hd (Addrs info) @ ''/'') \<or> e = EvSleep (RetryDelay opts))"
proof (cases "\<exists>addr0 xcert. reaches_loop env info addr0 xcert")
  case False
  with Open_dial_not_reached [of env info opts w] assms show ?thesis by auto
next
  case True
  then obtain addr0 xcert where rl: "reaches_loop env info addr0 xcert" by blast
  from Open_dial_loop [OF rl, of opts w] obtain cn er w' where
    dl: "dial_loop env (dial_cfg addr0 xcert)
          (Start \<lparr>Total = Timeout opts, Delay = RetryDelay opts\<rparr> w) None None w = (cn, er, w')"
    and od: "Open_dial env info opts w =
             (case er of
                Some e \<Rightarrow> (Inl (Failed e), w')
              | None \<Rightarrow> (case cn of None \<Rightarrow> (Inl (Panic ''nil pointer dereference''), w')
                                   | Some c \<Rightarrow> (Inr c, w')))"
    by blast
  from od assms have w': "w' = w1" by (auto split: option.splits)
  from dial_loop_trace [OF dl] obtain evs where
    "trace w' = trace w @ evs"
    "attempts (Location (dial_cfg addr0 xcert)) (RetryDelay opts) (now w + Timeout opts) True (now w) evs"
    by (auto simp: Start_simps)
  moreover have "hd (Addrs info) = addr0" using rl by (auto simp: reaches_loop_def split: list.splits)
  ultimately show ?thesis
    using w' by (auto simp: dial_cfg_def dest: attempts_events)
qed

lemma Open_dial_post:
  assumes "Open_dial env info opts w = (r, w1)"
  shows "chans w1 = chans w \<and> calls w1 = calls w \<and> next_chan w1 = next_chan w \<and>
         PingPeriod w1 = PingPeriod w \<and> (\<forall>p. r \<noteq> Inl (Panic p) \<or> Addrs info = []) \<and>
         (\<forall>c. r = Inr c \<longrightarrow> conns w1 c = Some ConnOpen)"
proof (cases "\<exists>addr0 xcert. reaches_loop env info addr0 xcert")
  case False
  with Open_dial_not_reached [of env info opts w] assms show ?thesis
    by auto
next
  case True
  then obtain addr0 xcert where rl: "reaches_loop env info addr0 xcert" by blast
  from Open_dial_loop [OF rl, of opts w] obtain cn er w' where
    dl: "dial_loop env (dial_cfg addr0 xcert)
          (Start \<lparr>Total = Timeout opts, Delay = RetryDelay opts\<rparr> w) None None w = (cn, er, w')"
    and od: "Open_dial env info opts w =
             (case er of
                Some e \<Rightarrow> (Inl (Failed e), w')
              | None \<Rightarrow> (case cn of None \<Rightarrow> (Inl (Panic ''nil pointer dereference''), w')
                                   | Some c \<Rightarrow> (Inr c, w')))"
    by blast
  from od assms have w': "w' = w1" by (auto split: option.splits)
  from dial_loop_post [OF dl] have "loop_post env (dial_cfg addr0 xcert)
      (Start \<lparr>Total = Timeout opts, Delay = RetryDelay opts\<rparr> w) None None w cn er w'" .
  with od assms w' show ?thesis
    by (auto simp: loop_post_def Start_simps split: option.splits)
qed

lemma Open_session_cases:
  "Open_session env info c w1 =
     (if Tag info = [] \<and> Password info = []
      then (Inr \<lparr>client = c, conn = c, broken = Some (next_chan w1)\<rparr>,
            w1\<lparr>trace := trace w1 @ [(now w1, EvStart c), (now w1, EvMake (next_chan w1)),
                                      (now w1, EvGo (next_chan w1))],
               chans := (chans w1)(next_chan w1 \<mapsto> ChanOpen),
               next_chan := Suc (next_chan w1)\<rparr>)
      else (case login_outcome env (Tag info) (Password info) of
              Some e \<Rightarrow>
                (Inl (Failed e),
                 w1\<lparr>trace := trace w1 @ [(now w1, EvStart c),
                        (now w1, EvLogin (Tag info) (Password info)), (now w1, EvConnClose c)],
                    conns := (conns w1)(c \<mapsto> ConnClosed)\<rparr>)
            | None \<Rightarrow>
                (Inr \<lparr>client = c, conn = c, broken = Some (next_chan w1)\<rparr>,
                 w1\<lparr>trace := trace w1 @ [(now w1, EvStart c),
                        (now w1, EvLogin (Tag info) (Password info)),
                        (now w1, EvMake (next_chan w1)), (now w1, EvGo (next_chan w1))],
                    chans := (chans w1)(next_chan w1 \<mapsto> ChanOpen),
                    next_chan := Suc (next_chan w1)\<rparr>)))"
  by (auto simp: Open_session_def finish_Open_def make_chan_def Login_def client_Start_def
                 conn_Close_def emit_def Let_def split: option.splits)



lemma since_append [simp]: "trace w' = trace w @ evs \<Longrightarrow> since w w' = evs"
  by (simp add: since_def)

section \<open>The session and the monitor\<close>

lemma Open_trace:
  assumes "Open env info opts w = (r, w')"
  shows "\<exists>evs. trace w' = trace w @ evs \<and>
           (\<forall>t l. (t, EvDial l) \<in> set evs \<longrightarrow> l = ''wss://'' @ hd (Addrs info) @ ''/'') \<and>
           (\<forall>t d. (t, EvSleep d) \<in> set evs \<longrightarrow> d = RetryDelay opts)"
proof -
  obtain r1 w1 where od: "Open_dial env info opts w = (r1, w1)"
    by (cases "Open_dial env info opts w") auto
  from Open_dial_trace [OF od] obtain evs where
    evs: "trace w1 = trace w @ evs"
      "\<forall>t e. (t, e) \<in> set evs \<longrightarrow>
              e = EvDial (''wss://'' @ hd (Addrs info) @ ''/'') \<or> e = EvSleep (RetryDelay opts)"
    by blast
  have "\<exists>evs'. trace w' = trace w1 @ evs' \<and>
           (\<forall>t e. (t, e) \<in> set evs' \<longrightarrow> (\<forall>l. e \<noteq> EvDial l) \<and> (\<forall>d. e \<noteq> EvSleep d))"
  proof (cases r1)
    case (Inl f)
    with od assms have "w' = w1" by (simp add: Open_def)
    then show ?thesis by simp
  next
    case (Inr c)
    with od assms have os: "Open_session env info c w1 = (r, w')" by (simp add: Open_def)
    then show ?thesis
      unfolding Open_session_cases by (auto split: if_splits option.splits)
  qed
  then obtain evs' where evs': "trace w' = trace w1 @ evs'"
      "\<forall>t e. (t, e) \<in> set evs' \<longrightarrow> (\<forall>l. e \<noteq> EvDial l) \<and> (\<forall>d. e \<noteq> EvSleep d)"
    by blast
  have "trace w' = trace w @ (evs @ evs')" using evs(1) evs'(1) by simp
  moreover have "l = ''wss://'' @ hd (Addrs info) @ ''/''" if "(t, EvDial l) \<in> set (evs @ evs')" for t l
    using that evs(2) evs'(2) by fastforce
  moreover have "d = RetryDelay opts" if "(t, EvSleep d) \<in> set (evs @ evs')" for t d
    using that evs(2) evs'(2) by fastforce
  ultimately show ?thesis by blast
qed

lemma Open_PingPeriod: "PingPeriod (snd (Open env info opts w)) = PingPeriod w"
proof -
  obtain r1 w1 where od: "Open_dial env info opts w = (r1, w1)"
    by (cases "Open_dial env info opts w") auto
  from Open_dial_post [OF od] have "PingPeriod w1 = PingPeriod w" by simp
  with od show ?thesis
    by (cases r1) (auto simp: Open_def Open_session_cases split: option.splits)
qed

lemma ping_cases:
  "ping env s w =
     (clientError env (rpc_outcome env (calls w) ''State'' [] ''Ping''),
      w\<lparr>calls := Suc (calls w), trace := trace w @ [(now w, EvCall ''State'' [] ''Ping'')]\<rparr>)"
  by (simp add: ping_def Call_def rpc_Call_def emit_def)

lemma heartbeatMonitor_run:
  assumes "\<forall>i<k. clientError env (rpc_outcome env (calls w + i) ''State'' [] ''Ping'') = None"
    and "clientError env (rpc_outcome env (calls w + k) ''State'' [] ''Ping'') = Some e"
  shows "\<exists>w'. heartbeatMonitor env s w = Some (close_chan (broken s) w') \<and>
           trace w' = trace w @ probe_events k (now w) (PingPeriod w) \<and>
           calls w' = calls w + k + 1 \<and>
           now w' = now w + int k * max 0 (PingPeriod w) \<and>
           chans w' = chans w \<and> conns w' = conns w \<and> dials w' = dials w \<and>
           next_chan w' = next_chan w \<and> PingPeriod w' = PingPeriod w"
  using assms
proof (induction k arbitrary: w)
  case 0
  let ?w1 = "w\<lparr>calls := Suc (calls w), trace := trace w @ [(now w, EvCall ''State'' [] ''Ping'')]\<rparr>"
  from 0 have "heartbeatMonitor env s w = Some (close_chan (broken s) ?w1)"
    by (subst heartbeatMonitor.simps) (simp add: ping_cases)
  then show ?case
    by (intro exI [of _ ?w1]) simp
next
  case (Suc k)
  let ?w1 = "w\<lparr>calls := Suc (calls w), trace := trace w @ [(now w, EvCall ''State'' [] ''Ping'')]\<rparr>"
  let ?w2 = "Sleep (PingPeriod ?w1) ?w1"
  from Suc.prems(1) have ok: "clientError env (rpc_outcome env (calls w) ''State'' [] ''Ping'') = None"
    by (metis add.right_neutral zero_less_Suc)
  have step: "heartbeatMonitor env s w = heartbeatMonitor env s ?w2"
    by (subst heartbeatMonitor.simps) (simp add: ping_cases ok)
  have c2: "calls ?w2 = Suc (calls w)" "now ?w2 = now w + max 0 (PingPeriod w)"
    "trace ?w2 = trace w @ [(now w, EvCall ''State'' [] ''Ping''), (now w, EvSleep (PingPeriod w))]"
    "chans ?w2 = chans w" "conns ?w2 = conns w" "dials ?w2 = dials w"
    "next_chan ?w2 = next_chan w" "PingPeriod ?w2 = PingPeriod w"
    by (simp_all add: Sleep_def emit_def)
  have p1: "\<forall>i<k. clientError env (rpc_outcome env (calls ?w2 + i) ''State'' [] ''Ping'') = None"
    using Suc.prems(1) c2(1) by (metis Suc_less_eq add_Suc_shift)
  have p2: "clientError env (rpc_outcome env (calls ?w2 + k) ''State'' [] ''Ping'') = Some e"
    using Suc.prems(2) c2(1) by (metis add_Suc_shift)
  from Suc.IH [OF p1 p2] obtain w' where
    "heartbeatMonitor env s ?w2 = Some (close_chan (broken s) w')"
    "trace w' = trace ?w2 @ probe_events k (now ?w2) (PingPeriod ?w2)"
    "calls w' = calls ?w2 + k + 1"
    "now w' = now ?w2 + int k * max 0 (PingPeriod ?w2)"
    "chans w' = chans ?w2" "conns w' = conns ?w2" "dials w' = dials ?w2"
    "next_chan w' = next_chan ?w2" "PingPeriod w' = PingPeriod ?w2"
    by blast
  with step c2 show ?case
    by (intro exI [of _ w']) (simp add: algebra_simps)
qed

lemma probe_events_events:
  "map snd (probe_events k t p) =
     concat (replicate k [EvCall ''State'' [] ''Ping'', EvSleep p]) @ [EvCall ''State'' [] ''Ping'']"
  by (induction k arbitrary: t) simp_all

lemma probe_events_sleeps: "sleeps (probe_events k t p @ evs) = replicate k p @ sleeps evs"
  by (induction k arbitrary: t) simp_all

lemma count_probe_events:
  "count_list (concat (replicate k [EvCall ''State'' [] ''Ping'', EvSleep p])) (EvClose ch) = 0"
  by (induction k) simp_all

text \<open>A monitor that returns has seen a probe fail.\<close>

lemma heartbeatMonitor_returns_only_on_failure:
  assumes "heartbeatMonitor env s w = Some y"
  shows "\<exists>k. clientError env (rpc_outcome env (calls w + k) ''State'' [] ''Ping'') \<noteq> None"
proof (rule heartbeatMonitor.raw_induct
         [where P = "\<lambda>env s w y. \<exists>k. clientError env
                        (rpc_outcome env (calls w + k) ''State'' [] ''Ping'') \<noteq> None",
          OF _ assms], goal_cases)
  case (1 f env s w y)
  note IH = 1(1) and body = 1(2)
  show ?case
  proof (cases "clientError env (rpc_outcome env (calls w) ''State'' [] ''Ping'')")
    case (Some e)
    then have "clientError env (rpc_outcome env (calls w + 0) ''State'' [] ''Ping'') \<noteq> None" by simp
    then show ?thesis by blast
  next
    case None
    let ?w1 = "w\<lparr>calls := Suc (calls w), trace := trace w @ [(now w, EvCall ''State'' [] ''Ping'')]\<rparr>"
    from None body have "f env s (Sleep (PingPeriod ?w1) ?w1) = Some y"
      by (simp add: ping_cases)
    then have "\<exists>k. clientError env
        (rpc_outcome env (calls (Sleep (PingPeriod ?w1) ?w1) + k) ''State'' [] ''Ping'') \<noteq> None"
      by (rule IH)
    then obtain k where
      "clientError env (rpc_outcome env (calls (Sleep (PingPeriod ?w1) ?w1) + k) ''State'' [] ''Ping'') \<noteq> None"
      by blast
    then have "clientError env (rpc_outcome env (calls w + Suc k) ''State'' [] ''Ping'') \<noteq> None"
      by (simp add: Sleep_def emit_def)
    then show ?thesis by blast
  qed
qed

lemma heartbeatMonitor_runs_while_alive:
  assumes "\<forall>k. clientError env (rpc_outcome env (calls w + k) ''State'' [] ''Ping'') = None"
  shows "heartbeatMonitor env s w = None"
proof (cases "heartbeatMonitor env s w")
  case None
  then show ?thesis .
next
  case (Some y)
  from heartbeatMonitor_returns_only_on_failure [OF Some] assms have False by simp
  then show ?thesis ..
qed

text \<open>
  Every session \<open>Open\<close> returns has its \<open>broken\<close> channel made and open, and its
  monitor started.
\<close>

lemma Open_session_channel:
  assumes "Open env info opts w = (Inr s, w')"
  shows "\<exists>ch. broken s = Some ch \<and> chans w' ch = Some ChanOpen \<and>
           last (trace w') = (now w', EvGo ch)"
proof -
  obtain r1 w1 where od: "Open_dial env info opts w = (r1, w1)"
    by (cases "Open_dial env info opts w") auto
  with assms show ?thesis
    by (cases r1) (auto simp: Open_def Open_session_cases split: if_splits option.splits)
qed

section \<open>The watcher loop\<close>

lemma loop_body_append:
  "loop_body wt (pre @ rest) s =
     (if fst (loop_body wt pre s) = Selecting then loop_body wt rest (snd (loop_body wt pre s))
      else loop_body wt pre s)"
  by (induction wt pre s rule: loop_body.induct) (simp_all add: Let_def)

lemma loop_body_Returned:
  "loop_body wt sched s = (Returned e, s') \<Longrightarrow> e = ErrDying \<and> SelDying \<in> set sched"
  by (induction wt sched s rule: loop_body.induct) (auto simp: Let_def split: if_splits)

lemma loop_body_Panicked:
  "loop_body wt sched s = (Panicked p, s') \<Longrightarrow> SelEventsClosed \<in> set sched"
  by (induction wt sched s rule: loop_body.induct) (auto simp: Let_def split: if_splits)

lemma loop_body_flags:
  "watcher_closed (snd (loop_body wt sched s)) = watcher_closed s \<and>
   changes_closed (snd (loop_body wt sched s)) = changes_closed s"
  by (induction wt sched s rule: loop_body.induct) (simp_all add: Let_def)

lemma loop_body_Selecting:
  "fst (loop_body wt sched s) = Selecting \<Longrightarrow> SelDying \<notin> set sched"
  by (induction wt sched s rule: loop_body.induct) (auto simp: Let_def split: if_splits)

text \<open>
  At its \<open>select\<close> the loop is responsive: when the Dying case fires there it returns
  \<open>ErrDying\<close> after its clean-up, and it returns in no other way.
\<close>

lemma loop_returns_at_select:
  "(fst (loop_body wt pre s) = Selecting
      \<longrightarrow> loop wt (pre @ SelDying # post) s =
            (Returned ErrDying, deferred (snd (loop_body wt pre s)))) \<and>
   (loop wt sched s = (Returned e, s')
      \<longrightarrow> e = ErrDying \<and> SelDying \<in> set sched \<and> watcher_closed s' \<and> changes_closed s') \<and>
   (loop wt sched s = (Selecting, s')
      \<longrightarrow> SelDying \<notin> set sched \<and>
          watcher_closed s' = watcher_closed s \<and> changes_closed s' = changes_closed s)"
proof (intro conjI impI)
  assume "fst (loop_body wt pre s) = Selecting"
  then show "loop wt (pre @ SelDying # post) s =
            (Returned ErrDying, deferred (snd (loop_body wt pre s)))"
    by (simp add: loop_def loop_body_append)
next
  assume a: "loop wt sched s = (Returned e, s')"
  then obtain s1 where b: "loop_body wt sched s = (Returned e, s1)" "s' = deferred s1"
    by (auto simp: loop_def split: prod.splits loop_status.splits)
  with loop_body_Returned [OF b(1)]
  show "e = ErrDying" "SelDying \<in> set sched" "watcher_closed s'" "changes_closed s'"
    by (simp_all add: deferred_def)
next
  assume a: "loop wt sched s = (Selecting, s')"
  then have b: "loop_body wt sched s = (Selecting, s')"
    by (auto simp: loop_def split: prod.splits loop_status.splits)
  then show "SelDying \<notin> set sched"
    using loop_body_Selecting [of wt sched s] by simp
  from b loop_body_flags [of wt sched s]
  show "watcher_closed s' = watcher_closed s" "changes_closed s' = changes_closed s"
    by simp_all
qed

text \<open>
  A loop that panics received from the closed events channel, and its clean-up has run.
\<close>

lemma loop_panics_on_closed_events:
  "(fst (loop_body wt pre s) = Selecting
      \<longrightarrow> loop wt (pre @ SelEventsClosed # post) s =
            (Panicked ''invalid memory address or nil pointer dereference'',
             deferred (snd (loop_body wt pre s)))) \<and>
   (loop wt sched s = (Panicked p, s')
      \<longrightarrow> SelEventsClosed \<in> set sched \<and> watcher_closed s' \<and> changes_closed s')"
proof (intro conjI impI)
  assume "fst (loop_body wt pre s) = Selecting"
  then show "loop wt (pre @ SelEventsClosed # post) s =
            (Panicked ''invalid memory address or nil pointer dereference'',
             deferred (snd (loop_body wt pre s)))"
    by (simp add: loop_def loop_body_append)
next
  assume a: "loop wt sched s = (Panicked p, s')"
  then obtain s1 where b: "loop_body wt sched s = (Panicked p, s1)" "s' = deferred s1"
    by (auto simp: loop_def split: prod.splits loop_status.splits)
  with loop_body_Panicked [OF b(1)]
  show "SelEventsClosed \<in> set sched" "watcher_closed s'" "changes_closed s'"
    by (simp_all add: deferred_def)
qed

text \<open>
  In the send the loop is not responsive: once an event for the watched path, created
  or deleted, is selected and no receiver takes the value, the loop stays in the send
  whatever the rest of the schedule holds; it has not returned and its clean-up has not
  run.
\<close>

lemma loop_blocked_in_send:
  assumes "fst (loop_body wt pre s) = Selecting"
    and "Name ev = watchPath wt" and "maskType (Mask ev) \<noteq> unknown"
  shows "loop wt (pre @ SelEvent ev False # post) s = (Sending, snd (loop_body wt pre s)) \<and>
         watcher_closed (snd (loop_body wt pre s)) = watcher_closed s \<and>
         changes_closed (snd (loop_body wt pre s)) = changes_closed s"
  using assms loop_body_flags [of wt pre s]
  by (simp add: loop_def loop_body_append)

section \<open>Evaluating the examples\<close>

lemmas ex_defs = ex_env_def ex_refusing_def ex_info_def ex_opts_def init_world_def Millisecond_def
  Second_def

lemmas run_defs = Open_def Open_dial_def Open_session_def finish_Open_def NewConfig_def Start_def
  Next_def DialConfig_def Sleep_def emit_def Login_def conn_Close_def client_Start_def
  make_chan_def Let_def since_def

lemmas ex_defs2 = ex_defs ex_badlogin_def ex_anonymous_def ex_badcert_def


lemma ex_world_simps:
  "fst (Open ex_env ex_info ex_opts init_world) = Inr ex_session"
  "chans ex_world 0 = Some ChanOpen" "calls ex_world = 0" "PingPeriod ex_world = 5000000000"
  "now ex_world = 130000000"
  by (simp_all add: ex_world_def ex_session_def ex_defs run_defs dial_loop.simps)

section \<open>The claims\<close>

text \<open>
  Claim C1. A monitor started on a session whose \<open>broken\<close> channel is open, and whose
  probes succeed \<open>k\<close> times and then fail, returns. Up to its return it has probed
  \<open>k + 1\<close> times, slept \<open>PingPeriod\<close> after each success, and closed the channel
  once, as its last act: nothing follows the failed probe but the close, the channel is
  closed exactly once, no dial is made and no connection is touched. Every observer
  holds the one channel \<open>Broken\<close> returns, open before and closed after.
\<close>

theorem heartbeatMonitor_closes_broken_once:
  assumes "broken s = Some ch" and "chans w ch = Some ChanOpen"
    and "\<forall>i<k. clientError env (rpc_outcome env (calls w + i) ''State'' [] ''Ping'') = None"
    and "clientError env (rpc_outcome env (calls w + k) ''State'' [] ''Ping'') = Some e"
  shows "\<exists>w'. heartbeatMonitor env s w = Some (None, w') \<and>
           map snd (since w w') =
             concat (replicate k [EvCall ''State'' [] ''Ping'', EvSleep (PingPeriod w)]) @
             [EvCall ''State'' [] ''Ping'', EvClose ch] \<and>
           count_list (map snd (since w w')) (EvClose ch) = 1 \<and>
           calls w' = calls w + k + 1 \<and> dials w' = dials w \<and> conns w' = conns w \<and>
           chans w' = (chans w)(ch \<mapsto> ChanClosed) \<and>
           observe w (Broken s) = Some ChanOpen \<and> observe w' (Broken s) = Some ChanClosed"
proof -
  from heartbeatMonitor_run [OF assms(3,4), of s] obtain w1 where
    hm: "heartbeatMonitor env s w = Some (close_chan (broken s) w1)"
    and w1: "trace w1 = trace w @ probe_events k (now w) (PingPeriod w)"
      "calls w1 = calls w + k + 1" "chans w1 = chans w" "conns w1 = conns w" "dials w1 = dials w"
    by blast
  let ?w' = "emit (EvClose ch) (w1\<lparr>chans := (chans w1)(ch \<mapsto> ChanClosed)\<rparr>)"
  have cl: "close_chan (broken s) w1 = (None, ?w')"
    using assms(1,2) w1(3) by (simp add: close_chan_def)
  have ev: "map snd (since w ?w') =
             concat (replicate k [EvCall ''State'' [] ''Ping'', EvSleep (PingPeriod w)]) @
             [EvCall ''State'' [] ''Ping'', EvClose ch]"
    using w1(1) by (simp add: since_def emit_def probe_events_events)
  have cnt: "count_list (map snd (since w ?w')) (EvClose ch) = 1"
    unfolding ev by (simp add: count_probe_events)
  have "heartbeatMonitor env s w = Some (None, ?w')" using hm cl by simp
  moreover have "calls ?w' = calls w + k + 1" "dials ?w' = dials w" "conns ?w' = conns w"
    "chans ?w' = (chans w)(ch \<mapsto> ChanClosed)"
    using w1 by (simp_all add: emit_def)
  moreover have "observe w (Broken s) = Some ChanOpen" "observe ?w' (Broken s) = Some ChanClosed"
    using assms(1,2) by (simp_all add: observe_def Broken_def emit_def)
  ultimately show ?thesis using ev cnt by blast
qed

theorem heartbeatMonitor_closes_broken_once_witness:
  "\<exists>w'. heartbeatMonitor ex_env ex_session ex_world = Some (None, w') \<and>
         map snd (since ex_world w') =
           [EvCall ''State'' [] ''Ping'', EvSleep 5000000000,
            EvCall ''State'' [] ''Ping'', EvSleep 5000000000,
            EvCall ''State'' [] ''Ping'', EvClose 0] \<and>
         count_list (map snd (since ex_world w')) (EvClose 0) = 1 \<and>
         observe ex_world (Broken ex_session) = Some ChanOpen \<and>
         observe w' (Broken ex_session) = Some ChanClosed"
proof -
  have h1: "broken ex_session = Some 0" by (simp add: ex_session_def)
  have h2: "chans ex_world 0 = Some ChanOpen" by (simp add: ex_world_simps)
  have h3: "\<forall>i<2. clientError ex_env (rpc_outcome ex_env (calls ex_world + i) ''State'' [] ''Ping'') = None"
    by (simp add: ex_world_simps) (simp add: ex_env_def)
  have h4: "clientError ex_env (rpc_outcome ex_env (calls ex_world + 2) ''State'' [] ''Ping'') =
              Some (Err ''connection is shut down'')"
    by (simp add: ex_world_simps) (simp add: ex_env_def)
  have r: "concat (replicate 2 [EvCall ''State'' [] ''Ping'', EvSleep 5000000000]) =
             [EvCall ''State'' [] ''Ping'', EvSleep 5000000000,
              EvCall ''State'' [] ''Ping'', EvSleep 5000000000]"
    by (simp add: numeral_2_eq_2)
  from heartbeatMonitor_closes_broken_once [OF h1 h2 h3 h4] show ?thesis
    by (auto simp: ex_world_simps r)
qed

text \<open>
  Claim C2. When \<open>Open\<close> reaches its loop and every dial attempt fails, \<open>Open\<close>
  returns the error of its last attempt and no session. It dials at once; every later
  attempt comes right after a sleep of \<open>RetryDelay\<close> and starts before \<open>Timeout\<close>
  has elapsed; when it returns, a further sleep of \<open>RetryDelay\<close> would not end before
  that time, and the last attempt began within the budget (or was the first).
\<close>

theorem Open_retries_until_timeout:
  assumes "reaches_loop env info addr0 xcert"
    and "\<forall>n. dials w \<le> n \<longrightarrow> dial_outcome env (dial_cfg addr0 xcert) n \<noteq> None"
  shows "\<exists>e w' evs.
           Open env info opts w = (Inl (Failed e), w') \<and>
           dial_outcome env (dial_cfg addr0 xcert) (dials w' - 1) = Some e \<and>
           dials w < dials w' \<and>
           since w w' = (now w, EvDial (''wss://'' @ addr0 @ ''/'')) # evs \<and>
           retries (''wss://'' @ addr0 @ ''/'') (RetryDelay opts) (now w + Timeout opts) evs \<and>
           now w + Timeout opts \<le> now w' + max 0 (RetryDelay opts) \<and>
           (now w' - max 1 (dial_time env (dials w' - 1)) < now w + Timeout opts \<or>
            now w' - max 1 (dial_time env (dials w' - 1)) = now w)"
proof -
  let ?cfg = "dial_cfg addr0 xcert"
  let ?a = "Start \<lparr>Total = Timeout opts, Delay = RetryDelay opts\<rparr> w"
  from Open_dial_loop [OF assms(1), of opts w] obtain cn er w' where
    dl: "dial_loop env ?cfg ?a None None w = (cn, er, w')"
    and od: "Open_dial env info opts w =
             (case er of
                Some e \<Rightarrow> (Inl (Failed e), w')
              | None \<Rightarrow> (case cn of None \<Rightarrow> (Inl (Panic ''nil pointer dereference''), w')
                                   | Some c \<Rightarrow> (Inr c, w')))"
    by blast
  from dial_loop_post [OF dl] have lp: "loop_post env ?cfg ?a None None w cn er w'" .
  then have d: "dials w < dials w'"
    by (simp add: loop_post_def Start_simps)
  with assms(2) have fail: "dial_outcome env ?cfg (dials w' - 1) \<noteq> None" by simp
  with lp obtain e where e: "er = Some e" "dial_outcome env ?cfg (dials w' - 1) = Some e"
    and ex: "now w + Timeout opts \<le> now w' + max 0 (RetryDelay opts)"
    and st: "now w' - max 1 (dial_time env (dials w' - 1)) < now w + Timeout opts \<or>
            now w' - max 1 (dial_time env (dials w' - 1)) = now w"
    by (auto simp: loop_post_def Start_simps)
  from dial_loop_trace [OF dl] obtain evs0 where
    tr: "trace w' = trace w @ evs0"
    and at: "attempts (Location ?cfg) (RetryDelay opts) (now w + Timeout opts) True (now w) evs0"
    by (auto simp: Start_simps)
  from at obtain evs where evs: "evs0 = (now w, EvDial (''wss://'' @ addr0 @ ''/'')) # evs"
    "retries (''wss://'' @ addr0 @ ''/'') (RetryDelay opts) (now w + Timeout opts) evs"
    by (auto simp: attempts_def dial_cfg_def split: list.splits)
  from od e have "Open env info opts w = (Inl (Failed e), w')"
    by (simp add: Open_def)
  moreover from tr evs have "since w w' = (now w, EvDial (''wss://'' @ addr0 @ ''/'')) # evs"
    by (simp add: since_def)
  ultimately show ?thesis using e d evs ex st by blast
qed

theorem Open_retries_until_timeout_witness:
  "(\<exists>e w' evs.
      Open ex_refusing ex_info ex_opts init_world = (Inl (Failed e), w') \<and>
      dial_outcome ex_refusing (dial_cfg ''a:17070'' [45, 45]) (dials w' - 1) = Some e \<and>
      dials init_world < dials w' \<and>
      since init_world w' = (now init_world, EvDial (''wss://'' @ ''a:17070'' @ ''/'')) # evs \<and>
      retries (''wss://'' @ ''a:17070'' @ ''/'') (RetryDelay ex_opts)
        (now init_world + Timeout ex_opts) evs \<and>
      now init_world + Timeout ex_opts \<le> now w' + max 0 (RetryDelay ex_opts) \<and>
      (now w' - max 1 (dial_time ex_refusing (dials w' - 1)) < now init_world + Timeout ex_opts \<or>
       now w' - max 1 (dial_time ex_refusing (dials w' - 1)) = now init_world)) \<and>
   fst (Open ex_refusing ex_info ex_opts init_world) = Inl (Failed (Err ''connection refused'')) \<and>
   since init_world (snd (Open ex_refusing ex_info ex_opts init_world)) =
     [(0, EvDial ''wss://a:17070/''),
      (10000000, EvSleep 50000000), (60000000, EvDial ''wss://a:17070/''),
      (70000000, EvSleep 50000000), (120000000, EvDial ''wss://a:17070/''),
      (130000000, EvSleep 50000000), (180000000, EvDial ''wss://a:17070/'')] \<and>
   now (snd (Open ex_refusing ex_info ex_opts init_world)) = 190000000"
proof -
  have h1: "reaches_loop ex_refusing ex_info ''a:17070'' [45, 45]"
    by (simp add: reaches_loop_def ex_defs)
  have h2: "\<forall>n. dials init_world \<le> n \<longrightarrow>
              dial_outcome ex_refusing (dial_cfg ''a:17070'' [45, 45]) n \<noteq> None"
    by (simp add: ex_defs)
  have c1: "fst (Open ex_refusing ex_info ex_opts init_world) = Inl (Failed (Err ''connection refused''))"
    by (simp add: ex_defs run_defs dial_loop.simps)
  have c2: "since init_world (snd (Open ex_refusing ex_info ex_opts init_world)) =
     [(0, EvDial ''wss://a:17070/''),
      (10000000, EvSleep 50000000), (60000000, EvDial ''wss://a:17070/''),
      (70000000, EvSleep 50000000), (120000000, EvDial ''wss://a:17070/''),
      (130000000, EvSleep 50000000), (180000000, EvDial ''wss://a:17070/'')]"
    by (simp add: ex_defs run_defs dial_loop.simps)
  have c3: "now (snd (Open ex_refusing ex_info ex_opts init_world)) = 190000000"
    by (simp add: ex_defs run_defs dial_loop.simps)
  from Open_retries_until_timeout [OF h1 h2, of ex_opts] c1 c2 c3 show ?thesis
    by (intro conjI)
qed




text \<open>
  Claim C4. With an empty tag and an empty password \<open>Open\<close> never attempts a login.
  Once the connection is established, a login is attempted exactly when the tag or the
  password is non-empty, and then with that tag and password; when both are empty,
  \<open>Open\<close> returns a session on the connection, no login having been made.
\<close>

theorem Open_login_iff_identity_given:
  "(Tag info = [] \<and> Password info = []
      \<longrightarrow> (\<forall>t tg pw. (t, EvLogin tg pw) \<notin> set (since w (snd (Open env info opts w))))) \<and>
   (Open_dial env info opts w = (Inr c, w1)
      \<longrightarrow> ((\<exists>t tg pw. (t, EvLogin tg pw) \<in> set (since w (snd (Open env info opts w))))
              \<longleftrightarrow> Tag info \<noteq> [] \<or> Password info \<noteq> []) \<and>
          (\<forall>t tg pw. (t, EvLogin tg pw) \<in> set (since w (snd (Open env info opts w)))
              \<longrightarrow> tg = Tag info \<and> pw = Password info) \<and>
          (Tag info = [] \<and> Password info = []
              \<longrightarrow> (\<exists>st. fst (Open env info opts w) = Inr st \<and> conn st = c)))"
proof -
  obtain r1 w1' where od: "Open_dial env info opts w = (r1, w1')"
    by (cases "Open_dial env info opts w") auto
  from Open_dial_trace [OF od] obtain evs where
    evs: "trace w1' = trace w @ evs"
      "\<forall>t e. (t, e) \<in> set evs \<longrightarrow>
              e = EvDial (''wss://'' @ hd (Addrs info) @ ''/'') \<or> e = EvSleep (RetryDelay opts)"
    by blast
  then have nl: "\<forall>t tg pw. (t, EvLogin tg pw) \<notin> set evs" by fastforce
  show ?thesis
  proof (cases r1)
    case (Inl f)
    with od evs(1) nl show ?thesis by (simp add: Open_def since_def)
  next
    case (Inr c')
    obtain evs' where s: "since w (snd (Open env info opts w)) = evs @ evs'"
      and evs': "evs' = (if Tag info = [] \<and> Password info = []
          then [(now w1', EvStart c'), (now w1', EvMake (next_chan w1')), (now w1', EvGo (next_chan w1'))]
          else (case login_outcome env (Tag info) (Password info) of
            Some e \<Rightarrow> [(now w1', EvStart c'), (now w1', EvLogin (Tag info) (Password info)),
                        (now w1', EvConnClose c')]
          | None \<Rightarrow> [(now w1', EvStart c'), (now w1', EvLogin (Tag info) (Password info)),
                        (now w1', EvMake (next_chan w1')), (now w1', EvGo (next_chan w1'))]))"
      using od Inr evs(1)
      by (auto simp: Open_def Open_session_cases since_def split: option.splits)
    have r: "Tag info = [] \<and> Password info = [] \<Longrightarrow> \<exists>st. fst (Open env info opts w) = Inr st \<and> conn st = c'"
      using od Inr by (simp add: Open_def Open_session_cases)
    from s evs' nl r od Inr show ?thesis
      by (auto split: option.splits)
  qed
qed

theorem Open_login_iff_identity_given_witness:
  "(\<forall>t tg pw. (t, EvLogin tg pw) \<notin> set (since init_world (snd (Open ex_env ex_anonymous ex_opts init_world)))) \<and>
   (\<exists>st. fst (Open ex_env ex_anonymous ex_opts init_world) = Inr st \<and> conn st = 2) \<and>
   (\<exists>t tg pw. (t, EvLogin tg pw) \<in> set (since init_world (snd (Open ex_env ex_info ex_opts init_world))))"
proof -
  have od1: "Open_dial ex_env ex_anonymous ex_opts init_world =
              (Inr 2, snd (Open_dial ex_env ex_anonymous ex_opts init_world))"
    by (simp add: ex_defs2 run_defs dial_loop.simps)
  have od2: "Open_dial ex_env ex_info ex_opts init_world =
              (Inr 2, snd (Open_dial ex_env ex_info ex_opts init_world))"
    by (simp add: ex_defs2 run_defs dial_loop.simps)
  have id1: "Tag ex_anonymous = [] \<and> Password ex_anonymous = []"
    by (simp add: ex_defs2)
  have id2: "Tag ex_info \<noteq> [] \<or> Password ex_info \<noteq> []"
    by (simp add: ex_defs2)
  note a = Open_login_iff_identity_given
    [of ex_anonymous init_world ex_env ex_opts 2 "snd (Open_dial ex_env ex_anonymous ex_opts init_world)"]
  note b = Open_login_iff_identity_given
    [of ex_info init_world ex_env ex_opts 2 "snd (Open_dial ex_env ex_info ex_opts init_world)"]
  from a [THEN conjunct1, rule_format, OF id1]
  have 1: "\<forall>t tg pw. (t, EvLogin tg pw) \<notin> set (since init_world (snd (Open ex_env ex_anonymous ex_opts init_world)))"
    by blast
  from a [THEN conjunct2, rule_format, OF od1] id1
  have 2: "\<exists>st. fst (Open ex_env ex_anonymous ex_opts init_world) = Inr st \<and> conn st = 2"
    by blast
  from b [THEN conjunct2, rule_format, OF od2] id2
  have 3: "\<exists>t tg pw. (t, EvLogin tg pw) \<in> set (since init_world (snd (Open ex_env ex_info ex_opts init_world)))"
    by blast
  from 1 2 3 show ?thesis by (intro conjI)
qed

text \<open>
  Claim C5. When the connection is established and the login fails, \<open>Open\<close> returns the
  login error and no session; the connection, open after the dial, is closed, closing it
  is the last thing \<open>Open\<close> does, no channel is made and no monitor is started.
\<close>

theorem Open_login_failure_closes_connection:
  assumes "Open_dial env info opts w = (Inr c, w1)"
    and "Tag info \<noteq> [] \<or> Password info \<noteq> []"
    and "login_outcome env (Tag info) (Password info) = Some e"
  shows "\<exists>w'. Open env info opts w = (Inl (Failed e), w') \<and>
           conns w1 c = Some ConnOpen \<and> conns w' c = Some ConnClosed \<and>
           last (trace w') = (now w1, EvConnClose c) \<and>
           chans w' = chans w1 \<and>
           (\<forall>t ch. (t, EvGo ch) \<notin> set (since w w'))"
proof -
  let ?w' = "w1\<lparr>trace := trace w1 @ [(now w1, EvStart c),
                        (now w1, EvLogin (Tag info) (Password info)), (now w1, EvConnClose c)],
                    conns := (conns w1)(c \<mapsto> ConnClosed)\<rparr>"
  have o: "Open env info opts w = (Inl (Failed e), ?w')"
    using assms by (auto simp: Open_def Open_session_cases)
  from Open_dial_post [OF assms(1)] have c: "conns w1 c = Some ConnOpen" by simp
  from Open_dial_trace [OF assms(1)] obtain evs where
    evs: "trace w1 = trace w @ evs"
      "\<forall>t e. (t, e) \<in> set evs \<longrightarrow>
              e = EvDial (''wss://'' @ hd (Addrs info) @ ''/'') \<or> e = EvSleep (RetryDelay opts)"
    by blast
  have "since w ?w' = evs @ [(now w1, EvStart c),
                        (now w1, EvLogin (Tag info) (Password info)), (now w1, EvConnClose c)]"
    using evs(1) by (simp add: since_def)
  with evs(2) have "\<forall>t ch. (t, EvGo ch) \<notin> set (since w ?w')" by fastforce
  with o c show ?thesis by simp
qed

theorem Open_login_failure_closes_connection_witness:
  "\<exists>w'. Open ex_env ex_badlogin ex_opts init_world =
           (Inl (Failed (Err ''invalid entity name or password'')), w') \<and>
         conns (snd (Open_dial ex_env ex_badlogin ex_opts init_world)) 2 = Some ConnOpen \<and>
         conns w' 2 = Some ConnClosed \<and>
         last (trace w') = (130000000, EvConnClose 2) \<and>
         (\<forall>t ch. (t, EvGo ch) \<notin> set (since init_world w'))"
proof -
  have od: "Open_dial ex_env ex_badlogin ex_opts init_world =
              (Inr 2, snd (Open_dial ex_env ex_badlogin ex_opts init_world))"
    by (simp add: ex_defs2 run_defs dial_loop.simps)
  have w1: "now (snd (Open_dial ex_env ex_badlogin ex_opts init_world)) = 130000000"
    by (simp add: ex_defs2 run_defs dial_loop.simps)
  have id: "Tag ex_badlogin = ''user-admin''" "Password ex_badlogin = ''guess''"
    by (simp_all add: ex_defs2)
  have h2: "Tag ex_badlogin \<noteq> [] \<or> Password ex_badlogin \<noteq> []"
    by (simp add: id)
  have h3: "login_outcome ex_env (Tag ex_badlogin) (Password ex_badlogin) =
              Some (Err ''invalid entity name or password'')"
    by (simp add: id) (simp add: ex_defs)
  from Open_login_failure_closes_connection [OF od h2 h3] show ?thesis
    by (auto simp: w1)
qed

text \<open>
  Claim C6. \<open>Call\<close> hands the error of the request, translated by \<open>clientError\<close>, to
  its caller and to nobody else: whether the request failed or not, the connections and
  the channels are as before, the \<open>broken\<close> channel of the session looks as before,
  nothing is dialled, and the one event of the call is the request itself.
\<close>

theorem Call_leaves_session_alone:
  "Call env s objType ident request w = (er, w') \<Longrightarrow>
     er = clientError env (rpc_outcome env (calls w) objType ident request) \<and>
     conns w' = conns w \<and> chans w' = chans w \<and> next_chan w' = next_chan w \<and>
     dials w' = dials w \<and> PingPeriod w' = PingPeriod w \<and> now w' = now w \<and>
     calls w' = Suc (calls w) \<and>
     since w w' = [(now w, EvCall objType ident request)] \<and>
     observe w' (Broken s) = observe w (Broken s)"
  by (auto simp: Call_def rpc_Call_def emit_def since_def observe_def split: option.splits)

theorem Call_leaves_session_alone_witness:
  "fst (Call ex_env ex_session ''Client'' [] ''Status'' (ex_world\<lparr>calls := 2\<rparr>)) =
      Some (Err ''connection is shut down'') \<and>
   conns (snd (Call ex_env ex_session ''Client'' [] ''Status'' (ex_world\<lparr>calls := 2\<rparr>))) = conns ex_world \<and>
   chans (snd (Call ex_env ex_session ''Client'' [] ''Status'' (ex_world\<lparr>calls := 2\<rparr>))) = chans ex_world \<and>
   observe (snd (Call ex_env ex_session ''Client'' [] ''Status'' (ex_world\<lparr>calls := 2\<rparr>))) (Broken ex_session)
     = Some ChanOpen"
proof -
  have h: "Call ex_env ex_session ''Client'' [] ''Status'' (ex_world\<lparr>calls := 2\<rparr>) =
             (fst (Call ex_env ex_session ''Client'' [] ''Status'' (ex_world\<lparr>calls := 2\<rparr>)),
              snd (Call ex_env ex_session ''Client'' [] ''Status'' (ex_world\<lparr>calls := 2\<rparr>)))"
    by simp
  have o: "observe (ex_world\<lparr>calls := 2\<rparr>) (Broken ex_session) = Some ChanOpen"
    by (simp add: observe_def Broken_def ex_session_def ex_world_simps)
  have e: "clientError ex_env (rpc_outcome ex_env 2 ''Client'' [] ''Status'') =
             Some (Err ''connection is shut down'')"
    by (simp add: ex_env_def)
  from Call_leaves_session_alone [OF h] o e show ?thesis
    by simp
qed

text \<open>
  Claim C7. The claim has the loop return the dying error whenever the Dying signal
  fires. The loop does so at its \<open>select\<close>, and not in its send. On the schedule
  below an event for the watched path is selected, no receiver takes the value from
  \<open>changes\<close>, and then Dying fires: the loop stays in the send, it does not return and
  the inotify watcher and the \<open>changes\<close> channel stay open. On the same schedule with
  a receiver the loop returns \<open>ErrDying\<close> with both closed.
\<close>

theorem loop_blocked_in_send_ignores_Dying:
  "loop ex_watcher
     [SelEvent \<lparr>Mask = 0x100, Name = ''/watchers/controller''\<rparr> False, SelDying] wstate0 =
     (Sending, wstate0) \<and>
   \<not> watcher_closed wstate0 \<and> \<not> changes_closed wstate0 \<and>
   loop ex_watcher
     [SelEvent \<lparr>Mask = 0x100, Name = ''/watchers/controller''\<rparr> True, SelDying] wstate0 =
     (Returned ErrDying,
      \<lparr>sent = [True], logged = [], watcher_closed = True, changes_closed = True\<rparr>)"
  by (simp add: loop_def deferred_def ex_watcher_def wstate0_def maskType_def InCreate_def
        InDelete_def)

text \<open>
  Claim C8. Whatever the endpoint answers, every dial \<open>Open\<close> makes goes to the first
  address of the list; no other address of the list is ever dialled.
\<close>

theorem Open_contacts_first_address_only:
  assumes "Addrs info = addr0 # others"
  shows "(\<forall>t l. (t, EvDial l) \<in> set (since w (snd (Open env info opts w)))
            \<longrightarrow> l = ''wss://'' @ addr0 @ ''/'') \<and>
         (\<forall>b \<in> set others. b \<noteq> addr0 \<longrightarrow>
            (\<forall>t. (t, EvDial (''wss://'' @ b @ ''/'')) \<notin> set (since w (snd (Open env info opts w)))))"
proof -
  obtain r w' where o: "Open env info opts w = (r, w')" by (cases "Open env info opts w") auto
  from Open_trace [OF o] obtain evs where
    t: "trace w' = trace w @ evs"
    and d: "\<forall>t l. (t, EvDial l) \<in> set evs \<longrightarrow> l = ''wss://'' @ hd (Addrs info) @ ''/''"
    by blast
  from t have s: "since w w' = evs" by (simp add: since_def)
  have 1: "l = ''wss://'' @ addr0 @ ''/''" if "(t, EvDial l) \<in> set (since w w')" for t l
    using that s d assms by auto
  have 2: "(t, EvDial (''wss://'' @ b @ ''/'')) \<notin> set (since w w')" if "b \<noteq> addr0" for b t
  proof
    assume "(t, EvDial (''wss://'' @ b @ ''/'')) \<in> set (since w w')"
    from 1 [OF this] that show False by simp
  qed
  from 1 2 o show ?thesis by auto
qed

theorem Open_contacts_first_address_only_witness:
  "\<forall>t. (t, EvDial ''wss://b:17070/'') \<notin> set (since init_world (snd (Open ex_refusing ex_info ex_opts init_world)))"
  using Open_contacts_first_address_only [of ex_info "''a:17070''" "[''b:17070'']" init_world ex_refusing ex_opts]
  by (simp add: ex_info_def)

text \<open>
  Claim C9. \<open>PingPeriod\<close> starts at five seconds; an assignment changes it and \<open>Open\<close>
  does not. A monitor whose probes succeed \<open>k\<close> times sleeps \<open>k\<close> times, each time
  for the value \<open>PingPeriod\<close> has in the world it runs in.
\<close>

theorem heartbeatMonitor_sleeps_PingPeriod:
  assumes "\<forall>i<k. clientError env (rpc_outcome env (calls w + i) ''State'' [] ''Ping'') = None"
    and "clientError env (rpc_outcome env (calls w + k) ''State'' [] ''Ping'') = Some e"
  shows "PingPeriod init_world = 5 * Second \<and> Second = 1000000000 \<and>
         PingPeriod (set_PingPeriod p w0) = p \<and>
         PingPeriod (snd (Open env info opts w0)) = PingPeriod w0 \<and>
         (\<exists>r w'. heartbeatMonitor env s w = Some (r, w') \<and>
                  sleeps (since w w') = replicate k (PingPeriod w) \<and>
                  now w' = now w + int k * max 0 (PingPeriod w))"
proof -
  from heartbeatMonitor_run [OF assms, of s] obtain w1 where
    hm: "heartbeatMonitor env s w = Some (close_chan (broken s) w1)"
    and w1: "trace w1 = trace w @ probe_events k (now w) (PingPeriod w)"
      "now w1 = now w + int k * max 0 (PingPeriod w)"
    by blast
  obtain r w' where cl: "close_chan (broken s) w1 = (r, w')"
    by (cases "close_chan (broken s) w1") auto
  then have "now w' = now w1" "\<exists>evs. trace w' = trace w1 @ evs \<and> sleeps evs = []"
    by (auto simp: close_chan_def emit_def split: option.splits chan_status.splits)
  with w1 have "sleeps (since w w') = replicate k (PingPeriod w)"
    "now w' = now w + int k * max 0 (PingPeriod w)"
    by (auto simp: since_def probe_events_sleeps)
  with hm cl show ?thesis
    by (simp add: init_world_def Second_def set_PingPeriod_def Open_PingPeriod)
qed

theorem heartbeatMonitor_sleeps_PingPeriod_witness:
  "PingPeriod init_world = 5000000000 \<and>
   (\<exists>r w'. heartbeatMonitor ex_env ex_session (set_PingPeriod 10000000 ex_world) = Some (r, w') \<and>
            sleeps (since (set_PingPeriod 10000000 ex_world) w') = [10000000, 10000000] \<and>
            now w' = 150000000)"
proof -
  have c: "calls (set_PingPeriod 10000000 ex_world) = 0"
    "PingPeriod (set_PingPeriod 10000000 ex_world) = 10000000"
    "now (set_PingPeriod 10000000 ex_world) = 130000000"
    by (simp_all add: set_PingPeriod_def ex_world_simps)
  have h3: "\<forall>i<2. clientError ex_env
              (rpc_outcome ex_env (calls (set_PingPeriod 10000000 ex_world) + i) ''State'' [] ''Ping'') = None"
    by (simp add: c) (simp add: ex_env_def)
  have h4: "clientError ex_env
              (rpc_outcome ex_env (calls (set_PingPeriod 10000000 ex_world) + 2) ''State'' [] ''Ping'') =
              Some (Err ''connection is shut down'')"
    by (simp add: c) (simp add: ex_env_def)
  from heartbeatMonitor_sleeps_PingPeriod [OF h3 h4, of 0 init_world ex_info ex_opts ex_session]
  show ?thesis
    by (auto simp: c numeral_2_eq_2 Second_def)
qed

text \<open>
  Claim C10. \<open>Open\<close> faults exactly when the address list is empty; it then faults
  with an index out of range, in the unchanged world: before any connection is
  attempted, and without returning an error value.
\<close>

theorem Open_empty_Addrs_faults:
  "((\<exists>p. fst (Open env info opts w) = Inl (Panic p)) \<longleftrightarrow> Addrs info = []) \<and>
   (Addrs info = [] \<longrightarrow> Open env info opts w = (Inl (Panic ''index out of range''), w))"
proof -
  have a: "Open env info opts w = (Inl (Panic ''index out of range''), w)" if "Addrs info = []"
    using that by (simp add: Open_def Open_dial_def)
  have b: "Addrs info = []" if "fst (Open env info opts w) = Inl (Panic p)" for p
  proof -
    obtain r1 w1 where od: "Open_dial env info opts w = (r1, w1)"
      by (cases "Open_dial env info opts w") auto
    show ?thesis
    proof (cases r1)
      case (Inl f)
      with od that Open_dial_post [OF od] show ?thesis by (auto simp: Open_def)
    next
      case (Inr c)
      with od that show ?thesis
        by (auto simp: Open_def Open_session_cases split: if_splits option.splits)
    qed
  qed
  from a b show ?thesis by auto
qed

theorem Open_empty_Addrs_faults_witness:
  "Open ex_env (ex_info\<lparr>Addrs := []\<rparr>) ex_opts init_world =
     (Inl (Panic ''index out of range''), init_world)"
  using Open_empty_Addrs_faults [of ex_env "ex_info\<lparr>Addrs := []\<rparr>" ex_opts init_world]
  by simp

end
